theory Spec2Isabelle
  imports Complex_Main
begin

section \<open>Numbers, arrays and failures\<close>

text \<open>
  The program is the script \<^verbatim>\<open>simulation.py\<close>. Its numbers are numpy's float64; here
  they are real numbers, so rounding and overflow are outside the model, except in the
  sections on the Mage branch in float64, which model that branch with the rounding of
  binary64. An array of
  shape \<^verbatim>\<open>(2,)\<close> (a position, a force, a noise sample) is a pair of reals, and the
  array \<^verbatim>\<open>X\<close> of shape \<^verbatim>\<open>(N, 2)\<close> is a list of such pairs, one per row.

  Three things can go wrong in the script. Two are Python exceptions: numpy raises
  \<^verbatim>\<open>ValueError\<close> when asked for an array with a negative dimension, and indexing
  past the end of an array raises \<^verbatim>\<open>IndexError\<close>. The third is not an exception:
  a division by zero or the square root of a negative number makes numpy store
  \<^verbatim>\<open>inf\<close> or \<^verbatim>\<open>nan\<close> and go on. The reals have no such value, so the model stops
  there with \<open>NonFinite\<close>.
\<close>

type_synonym vec = "real \<times> real"

datatype fault = ValueError | IndexError | NonFinite

definition zeros2 :: vec where
  "zeros2 = (0, 0)"

definition vadd :: "vec \<Rightarrow> vec \<Rightarrow> vec" where
  "vadd u v = (fst u + fst v, snd u + snd v)"

definition vsub :: "vec \<Rightarrow> vec \<Rightarrow> vec" where
  "vsub u v = (fst u - fst v, snd u - snd v)"

definition vneg :: "vec \<Rightarrow> vec" where
  "vneg v = (- fst v, - snd v)"

definition smul :: "real \<Rightarrow> vec \<Rightarrow> vec" where
  "smul a v = (a * fst v, a * snd v)"

definition vdiv :: "vec \<Rightarrow> real \<Rightarrow> fault + vec" where
  "vdiv v d = (if d = 0 then Inl NonFinite else Inr (fst v / d, snd v / d))"

definition linalg_norm :: "vec \<Rightarrow> real" where
  "linalg_norm r = sqrt ((fst r)\<^sup>2 + (snd r)\<^sup>2)"

definition np_sqrt :: "real \<Rightarrow> fault + real" where
  "np_sqrt x = (if x < 0 then Inl NonFinite else Inr (sqrt x))"

definition getitem :: "'a list \<Rightarrow> nat \<Rightarrow> fault + 'a" where
  "getitem xs i = (if i < length xs then Inr (xs ! i) else Inl IndexError)"

definition setitem :: "'a list \<Rightarrow> nat \<Rightarrow> 'a \<Rightarrow> fault + 'a list" where
  "setitem xs i v = (if i < length xs then Inr (xs[i := v]) else Inl IndexError)"

definition py_range :: "int \<Rightarrow> nat list" where
  "py_range n = [0..<nat n]"

section \<open>The interaction kernel\<close>

text \<open>
  \<^verbatim>\<open>interaction_kernel(xi, xj, c_type)\<close>, lines 16 to 29. The class is the integer the
  script stores: 0 a Guard, 1 a Mage, anything else a Ninja.
\<close>

definition Guard :: int where
  "Guard = 0"

definition Mage :: int where
  "Mage = 1"

definition Ninja :: int where
  "Ninja = 2"

definition interaction_kernel :: "vec \<Rightarrow> vec \<Rightarrow> int \<Rightarrow> fault + vec" where
  "interaction_kernel xi xj c_type =
     (let r = vsub xi xj;
          dist = linalg_norm r
      in if dist < 0.001 then Inr zeros2
         else if c_type = 0 then
           (if dist < 2 then vdiv (smul 2.0 r) (dist ^ 3) else Inr zeros2)
         else if c_type = 1 then vdiv (smul (- 0.5) r) dist
         else Inr zeros2)"

section \<open>The Mage branch in float64\<close>

text \<open>
  Whether the Mage force has norm exactly 0.5 depends on the rounding of float64, so
  for that one question the path of \<^verbatim>\<open>interaction_kernel\<close> for \<^verbatim>\<open>c_type == 1\<close> (lines 17
  to 19 and 26) is modelled a second time, in IEEE binary64. A float is the real number
  it denotes. \<open>round64\<close> rounds a real to the nearest binary64 value, ties to the even
  significand: 53 significant bits, and below \<open>2\<^sup>-\<^sup>1\<^sup>0\<^sup>2\<^sup>2\<close> the fixed spacing
  \<open>2\<^sup>-\<^sup>1\<^sup>0\<^sup>7\<^sup>4\<close> of the subnormal numbers. A result that rounds to \<open>2\<^sup>1\<^sup>0\<^sup>2\<^sup>4\<close> or beyond is
  \<^verbatim>\<open>inf\<close> in numpy; as in the rest of the model, the computation stops there with
  \<open>NonFinite\<close>. Every arithmetic operation rounds once; no multiplication is fused
  with an addition.

  \<open>round_half_even\<close> rounds a real to the nearest integer, a tie going to the even one.
\<close>

definition round_half_even :: "real \<Rightarrow> int" where
  "round_half_even x =
     (let n = \<lfloor>x\<rfloor>;
          f = x - of_int n
      in if f < 1 / 2 then n
         else if 1 / 2 < f then n + 1
         else if even n then n else n + 1)"

definition round64 :: "real \<Rightarrow> real" where
  "round64 x =
     (if x = 0 then 0
      else let e = max \<lfloor>log 2 \<bar>x\<bar>\<rfloor> (- 1022);
               ulp = 2 powr of_int (e - 52)
           in of_int (round_half_even (x / ulp)) * ulp)"

definition float64 :: "real \<Rightarrow> fault + real" where
  "float64 x = (if 2 ^ 1024 \<le> \<bar>round64 x\<bar> then Inl NonFinite else Inr (round64 x))"

text \<open>The arithmetic of float64 on two floats, and the literal \<^verbatim>\<open>1e-3\<close>.\<close>

definition f64_sub :: "real \<Rightarrow> real \<Rightarrow> fault + real" where
  "f64_sub a b = float64 (a - b)"

definition f64_add :: "real \<Rightarrow> real \<Rightarrow> fault + real" where
  "f64_add a b = float64 (a + b)"

definition f64_mul :: "real \<Rightarrow> real \<Rightarrow> fault + real" where
  "f64_mul a b = float64 (a * b)"

definition f64_div :: "real \<Rightarrow> real \<Rightarrow> fault + real" where
  "f64_div a b = (if b = 0 then Inl NonFinite else float64 (a / b))"

definition f64_sqrt :: "real \<Rightarrow> fault + real" where
  "f64_sqrt a = (if a < 0 then Inl NonFinite else float64 (sqrt a))"

definition f64_1e_3 :: real where
  "f64_1e_3 = round64 0.001"

text \<open>Line 17, \<^verbatim>\<open>r = xi - xj\<close>, entry by entry.\<close>

definition displacement_f64 :: "vec \<Rightarrow> vec \<Rightarrow> fault + vec" where
  "displacement_f64 xi xj =
     (case f64_sub (fst xi) (fst xj) of Inl e \<Rightarrow> Inl e | Inr r0 \<Rightarrow>
     (case f64_sub (snd xi) (snd xj) of Inl e \<Rightarrow> Inl e | Inr r1 \<Rightarrow> Inr (r0, r1)))"

text \<open>
  Line 18: \<^verbatim>\<open>np.linalg.norm(r)\<close> is the square root of the dot product of \<^verbatim>\<open>r\<close> with
  itself: two products, their sum, the root.
\<close>

definition linalg_norm_f64 :: "vec \<Rightarrow> fault + real" where
  "linalg_norm_f64 r =
     (case f64_mul (fst r) (fst r) of Inl e \<Rightarrow> Inl e | Inr s0 \<Rightarrow>
     (case f64_mul (snd r) (snd r) of Inl e \<Rightarrow> Inl e | Inr s1 \<Rightarrow>
     (case f64_add s0 s1 of Inl e \<Rightarrow> Inl e | Inr q \<Rightarrow> f64_sqrt q)))"

text \<open>
  Lines 17 to 19 and 26, \<^verbatim>\<open>interaction_kernel(xi, xj, 1)\<close>: the test against
  \<^verbatim>\<open>1e-3\<close>, then \<^verbatim>\<open>-0.5 * r / dist\<close>, the product and the quotient entry by entry.
\<close>

definition mage_kernel_f64 :: "vec \<Rightarrow> vec \<Rightarrow> fault + vec" where
  "mage_kernel_f64 xi xj =
     (case displacement_f64 xi xj of Inl e \<Rightarrow> Inl e | Inr r \<Rightarrow>
     (case linalg_norm_f64 r of Inl e \<Rightarrow> Inl e | Inr d \<Rightarrow>
        if d < f64_1e_3 then Inr (0, 0)
        else (case f64_mul (- 0.5) (fst r) of Inl e \<Rightarrow> Inl e | Inr t0 \<Rightarrow>
             (case f64_mul (- 0.5) (snd r) of Inl e \<Rightarrow> Inl e | Inr t1 \<Rightarrow>
             (case f64_div t0 d of Inl e \<Rightarrow> Inl e | Inr v0 \<Rightarrow>
             (case f64_div t1 d of Inl e \<Rightarrow> Inl e | Inr v1 \<Rightarrow> Inr (v0, v1)))))))"

section \<open>The potential\<close>

text \<open>
  \<^verbatim>\<open>potential_gradient(x)\<close>, lines 31 to 33. The script calls it on the row \<^verbatim>\<open>X[i]\<close>,
  where numpy applies the scalar formula to each of the two entries.
\<close>

definition potential_gradient :: "real \<Rightarrow> real" where
  "potential_gradient x = 0.1 * (x ^ 3 - 9 * x)"

definition potential_gradient_row :: "vec \<Rightarrow> vec" where
  "potential_gradient_row x = (potential_gradient (fst x), potential_gradient (snd x))"

definition drift_of :: "vec \<Rightarrow> vec" where
  "drift_of x = vneg (potential_gradient_row x)"

section \<open>The random generator\<close>

text \<open>
  The script draws from numpy's global generator, which is not part of the repository.
  It is a parameter here: a state of any type with one operation for a standard normal
  draw and one for a draw of \<^verbatim>\<open>randint(0, 3)\<close>, each returning the next state.
\<close>

record 'g np_random =
  randn_scalar :: "'g \<Rightarrow> real \<times> 'g"
  randint_scalar :: "'g \<Rightarrow> int \<times> 'g"

definition randn_2 :: "'g np_random \<Rightarrow> 'g \<Rightarrow> vec \<times> 'g" where
  "randn_2 rnd g =
     (let (a, g1) = randn_scalar rnd g;
          (b, g2) = randn_scalar rnd g1
      in ((a, b), g2))"

fun randn_rows :: "'g np_random \<Rightarrow> nat \<Rightarrow> 'g \<Rightarrow> vec list \<times> 'g" where
  "randn_rows rnd 0 g = ([], g)"
| "randn_rows rnd (Suc n) g =
     (let (v, g1) = randn_2 rnd g;
          (vs, g2) = randn_rows rnd n g1
      in (v # vs, g2))"

definition randn_N_2 :: "'g np_random \<Rightarrow> int \<Rightarrow> 'g \<Rightarrow> fault + (vec list \<times> 'g)" where
  "randn_N_2 rnd n g = (if n < 0 then Inl ValueError else Inr (randn_rows rnd (nat n) g))"

fun randint_list :: "'g np_random \<Rightarrow> nat \<Rightarrow> 'g \<Rightarrow> int list \<times> 'g" where
  "randint_list rnd 0 g = ([], g)"
| "randint_list rnd (Suc n) g =
     (let (c, g1) = randint_scalar rnd g;
          (cs, g2) = randint_list rnd n g1
      in (c # cs, g2))"

definition randint_N :: "'g np_random \<Rightarrow> int \<Rightarrow> 'g \<Rightarrow> fault + (int list \<times> 'g)" where
  "randint_N rnd n g = (if n < 0 then Inl ValueError else Inr (randint_list rnd (nat n) g))"

text \<open>
  The generator after \<open>k\<close> calls of \<^verbatim>\<open>np.random.randn(2)\<close>, and the sample the call
  after those returns.
\<close>

primrec rng_after :: "'g np_random \<Rightarrow> nat \<Rightarrow> 'g \<Rightarrow> 'g" where
  "rng_after rnd 0 g = g"
| "rng_after rnd (Suc k) g = snd (randn_2 rnd (rng_after rnd k g))"

definition sample_at :: "'g np_random \<Rightarrow> 'g \<Rightarrow> nat \<Rightarrow> vec" where
  "sample_at rnd g k = fst (randn_2 rnd (rng_after rnd k g))"

text \<open>
  A generator to run the script on in the examples below: its state is a counter, and
  every draw returns the counter and advances it.
\<close>

definition counting_random :: "nat np_random" where
  "counting_random =
     \<lparr>randn_scalar = (\<lambda>g. (real g, Suc g)), randint_scalar = (\<lambda>g. (int g mod 3, Suc g))\<rparr>"

section \<open>One time step\<close>

text \<open>
  Lines 42 to 45: the loop over \<^verbatim>\<open>j\<close> that adds the kernel of every other agent to
  \<^verbatim>\<open>interaction\<close>. The list is the part of \<^verbatim>\<open>range(N)\<close> still to visit.
\<close>

fun interaction_loop ::
  "vec list \<Rightarrow> int list \<Rightarrow> nat \<Rightarrow> nat list \<Rightarrow> vec \<Rightarrow> fault + vec" where
  "interaction_loop X classes i [] interaction = Inr interaction"
| "interaction_loop X classes i (j # js) interaction =
     (if i = j then interaction_loop X classes i js interaction
      else case getitem X i of Inl e \<Rightarrow> Inl e | Inr xi \<Rightarrow>
           (case getitem X j of Inl e \<Rightarrow> Inl e | Inr xj \<Rightarrow>
           (case getitem classes i of Inl e \<Rightarrow> Inl e | Inr c \<Rightarrow>
           (case interaction_kernel xi xj c of Inl e \<Rightarrow> Inl e | Inr k \<Rightarrow>
              interaction_loop X classes i js (vadd interaction k)))))"

text \<open>Lines 42 to 46: the loop from the zero vector, then \<^verbatim>\<open>interaction /= N\<close>.\<close>

definition mean_field :: "int \<Rightarrow> vec list \<Rightarrow> int list \<Rightarrow> nat \<Rightarrow> fault + vec" where
  "mean_field N X classes i =
     (case interaction_loop X classes i (py_range N) zeros2 of
        Inl e \<Rightarrow> Inl e
      | Inr interaction \<Rightarrow> vdiv interaction (of_int N))"

text \<open>Line 48: \<^verbatim>\<open>np.random.randn(2) * np.sqrt(dt) * sigma\<close>.\<close>

definition noise_of :: "real \<Rightarrow> real \<Rightarrow> vec \<Rightarrow> fault + vec" where
  "noise_of dt sigma z =
     (case np_sqrt dt of Inl e \<Rightarrow> Inl e | Inr s \<Rightarrow> Inr (smul sigma (smul s z)))"

text \<open>Lines 40 to 51: the body of the loop over \<^verbatim>\<open>i\<close>, up to the value stored in \<^verbatim>\<open>X_new[i]\<close>.\<close>

definition agent_update ::
  "'g np_random \<Rightarrow> int \<Rightarrow> real \<Rightarrow> real \<Rightarrow> vec list \<Rightarrow> int list \<Rightarrow> nat \<Rightarrow> 'g
     \<Rightarrow> fault + (vec \<times> 'g)" where
  "agent_update rnd N dt sigma X classes i g =
     (case getitem X i of Inl e \<Rightarrow> Inl e | Inr xi \<Rightarrow>
        let drift = drift_of xi
        in (case mean_field N X classes i of Inl e \<Rightarrow> Inl e | Inr interaction \<Rightarrow>
              let (z, g') = randn_2 rnd g
              in (case noise_of dt sigma z of Inl e \<Rightarrow> Inl e | Inr noise \<Rightarrow>
                    Inr (vadd (vadd xi (smul dt (vadd drift interaction))) noise, g'))))"

text \<open>Lines 39 to 51: the loop over \<^verbatim>\<open>i\<close>, writing row \<^verbatim>\<open>i\<close> of \<^verbatim>\<open>X_new\<close>.\<close>

fun agents_loop ::
  "'g np_random \<Rightarrow> int \<Rightarrow> real \<Rightarrow> real \<Rightarrow> vec list \<Rightarrow> int list \<Rightarrow> nat list
     \<Rightarrow> vec list \<times> 'g \<Rightarrow> fault + (vec list \<times> 'g)" where
  "agents_loop rnd N dt sigma X classes [] (X_new, g) = Inr (X_new, g)"
| "agents_loop rnd N dt sigma X classes (i # is) (X_new, g) =
     (case agent_update rnd N dt sigma X classes i g of Inl e \<Rightarrow> Inl e | Inr (v, g') \<Rightarrow>
        (case setitem X_new i v of Inl e \<Rightarrow> Inl e | Inr X_new' \<Rightarrow>
           agents_loop rnd N dt sigma X classes is (X_new', g')))"

text \<open>
  Lines 38 to 54: one pass of the loop over \<^verbatim>\<open>t\<close>. \<^verbatim>\<open>X_new\<close> starts as
  \<^verbatim>\<open>np.zeros_like(X)\<close>; at the end \<^verbatim>\<open>X\<close> becomes \<^verbatim>\<open>X_new\<close> and a copy is appended
  to \<^verbatim>\<open>history\<close>. The state is \<^verbatim>\<open>X\<close>, \<^verbatim>\<open>history\<close> and the generator.
\<close>

type_synonym 'g sim_state = "vec list \<times> vec list list \<times> 'g"

definition step ::
  "'g np_random \<Rightarrow> int \<Rightarrow> real \<Rightarrow> real \<Rightarrow> int list \<Rightarrow> 'g sim_state
     \<Rightarrow> fault + 'g sim_state" where
  "step rnd N dt sigma classes st =
     (case st of (X, history, g) \<Rightarrow>
        (case agents_loop rnd N dt sigma X classes (py_range N)
                (replicate (length X) zeros2, g) of
           Inl e \<Rightarrow> Inl e
         | Inr (X_new, g') \<Rightarrow> Inr (X_new, history @ [X_new], g')))"

section \<open>The run\<close>

text \<open>Lines 37 to 54: the loop over \<^verbatim>\<open>t\<close>; the number is how many passes remain.\<close>

fun simulation_loop ::
  "'g np_random \<Rightarrow> int \<Rightarrow> real \<Rightarrow> real \<Rightarrow> int list \<Rightarrow> nat \<Rightarrow> 'g sim_state
     \<Rightarrow> fault + 'g sim_state" where
  "simulation_loop rnd N dt sigma classes 0 st = Inr st"
| "simulation_loop rnd N dt sigma classes (Suc n) st =
     (case step rnd N dt sigma classes st of
        Inl e \<Rightarrow> Inl e
      | Inr st' \<Rightarrow> simulation_loop rnd N dt sigma classes n st')"

text \<open>
  The whole script, with the configuration of lines 5 to 8 as arguments: the initial
  positions (line 11), the classes (line 14), the empty history (line 36) and the loop.
\<close>

definition run ::
  "'g np_random \<Rightarrow> int \<Rightarrow> int \<Rightarrow> real \<Rightarrow> real \<Rightarrow> 'g \<Rightarrow> fault + 'g sim_state" where
  "run rnd N T dt sigma g =
     (case randn_N_2 rnd N g of Inl e \<Rightarrow> Inl e | Inr (Z, g1) \<Rightarrow>
        let X = map (smul 5) Z
        in (case randint_N rnd N g1 of Inl e \<Rightarrow> Inl e | Inr (classes, g2) \<Rightarrow>
              simulation_loop rnd N dt sigma classes (nat T) (X, [], g2)))"

section \<open>Properties of the kernel\<close>

lemma kernel_returns: "\<exists>v. interaction_kernel xi xj c = Inr v"
  by (auto simp: interaction_kernel_def Let_def vdiv_def)

lemma norm_vsub_commute: "linalg_norm (vsub xj xi) = linalg_norm (vsub xi xj)"
  by (simp add: linalg_norm_def vsub_def power2_commute)

lemma unit_scaled_norm:
  fixes a b d :: real
  assumes d: "d = sqrt (a\<^sup>2 + b\<^sup>2)" and pos: "0 < d"
  shows "sqrt ((- 0.5 * a / d)\<^sup>2 + (- 0.5 * b / d)\<^sup>2) = 0.5"
proof -
  have d2: "d\<^sup>2 = a\<^sup>2 + b\<^sup>2"
    using d by simp
  have "(- 0.5 * a / d)\<^sup>2 + (- 0.5 * b / d)\<^sup>2 = (1 / 4) * ((a\<^sup>2 + b\<^sup>2) / d\<^sup>2)"
    by (simp add: power_divide power_mult_distrib add_divide_distrib power2_eq_square)
  also have "\<dots> = (1 / 4) * (d\<^sup>2 / d\<^sup>2)"
    by (simp only: d2)
  also have "\<dots> = (1 / 2)\<^sup>2"
    using pos by (simp add: power2_eq_square)
  finally have "sqrt ((- 0.5 * a / d)\<^sup>2 + (- 0.5 * b / d)\<^sup>2) = sqrt ((1 / 2)\<^sup>2)"
    by simp
  then show ?thesis
    by simp
qed

text \<open>
  C2. Whenever the two positions are closer than 0.001, the kernel returns the zero
  vector, whatever the class. The test comes before every class branch, so no division
  is ever made by a zero distance: for all positions and every class the kernel returns
  a vector and never the \<open>NonFinite\<close> of a division by zero.
\<close>

theorem kernel_floor:
  "(sqrt ((x1 - x2)\<^sup>2 + (y1 - y2)\<^sup>2) < 0.001 \<longrightarrow>
      interaction_kernel (x1, y1) (x2, y2) c_type = Inr (0, 0))
   \<and> (\<exists>v. interaction_kernel (x1, y1) (x2, y2) c_type = Inr v)"
  by (auto simp: interaction_kernel_def Let_def vdiv_def linalg_norm_def vsub_def zeros2_def)

theorem kernel_floor_witness:
  "interaction_kernel (1, 1) (1, 1) Guard = Inr (0, 0)
   \<and> interaction_kernel (0.0005, 0) (0, 0) Mage = Inr (0, 0)
   \<and> interaction_kernel (0, 0) (0, 0.0005) Ninja = Inr (0, 0)"
  using kernel_floor [of 1 1 1 1 Guard] kernel_floor [of "0.0005" 0 0 0 Mage]
    kernel_floor [of 0 0 0 "0.0005" Ninja]
  by simp

text \<open>
  C3. For a Guard, with \<open>d\<close> the distance between the two positions: when
  \<open>0.001 \<le> d < 2\<close> the kernel returns \<open>2.0 \<cdot> (xi - xj) / d\<^sup>3\<close>, and when \<open>2 \<le> d\<close> it
  returns the zero vector.
\<close>

theorem guard_kernel:
  "d = sqrt ((x1 - x2)\<^sup>2 + (y1 - y2)\<^sup>2) \<Longrightarrow>
   (0.001 \<le> d \<and> d < 2 \<longrightarrow>
      interaction_kernel (x1, y1) (x2, y2) Guard =
        Inr (2.0 * (x1 - x2) / d ^ 3, 2.0 * (y1 - y2) / d ^ 3))
   \<and> (2 \<le> d \<longrightarrow> interaction_kernel (x1, y1) (x2, y2) Guard = Inr (0, 0))"
  by (auto simp: interaction_kernel_def Let_def vdiv_def linalg_norm_def vsub_def zeros2_def
        smul_def Guard_def)

theorem guard_kernel_witness:
  "interaction_kernel (1, 0) (0, 0) Guard = Inr (2, 0)
   \<and> interaction_kernel (2, 0) (0, 0) Guard = Inr (0, 0)"
  using guard_kernel [of 1 1 0 0 0] guard_kernel [of 2 2 0 0 0] by simp

text \<open>
  Over the reals, the Mage force at a distance \<open>d > 0.001\<close> is \<open>-0.5 \<cdot> (xi - xj) / d\<close>, a
  vector of norm 0.5. The equality of the norm is a fact of exact arithmetic only; what
  float64 makes of it is the subject of the section on the Mage force in float64.
\<close>

lemma mage_kernel_reals:
  "d = sqrt ((x1 - x2)\<^sup>2 + (y1 - y2)\<^sup>2) \<Longrightarrow> 0.001 < d \<Longrightarrow>
   \<exists>v. interaction_kernel (x1, y1) (x2, y2) Mage = Inr v
     \<and> v = (- 0.5 * (x1 - x2) / d, - 0.5 * (y1 - y2) / d)
     \<and> sqrt ((fst v)\<^sup>2 + (snd v)\<^sup>2) = 0.5"
proof -
  assume d: "d = sqrt ((x1 - x2)\<^sup>2 + (y1 - y2)\<^sup>2)" and far: "0.001 < d"
  have pos: "0 < d"
    using far by simp
  have n: "linalg_norm (vsub (x1, y1) (x2, y2)) = d"
    by (simp add: d linalg_norm_def vsub_def)
  have k: "interaction_kernel (x1, y1) (x2, y2) Mage =
      Inr (- 0.5 * (x1 - x2) / d, - 0.5 * (y1 - y2) / d)"
    unfolding interaction_kernel_def Let_def n
    using far pos by (simp add: vdiv_def vsub_def smul_def Mage_def)
  show ?thesis
    using k unit_scaled_norm [OF d pos] by simp
qed

text \<open>
  C10. Swapping the two positions negates the kernel, for every class: the kernel of
  \<open>(xj, xi)\<close> is some vector \<open>v\<close>, and the kernel of \<open>(xi, xj)\<close> is \<open>-v\<close>.
\<close>

theorem kernel_antisymmetric:
  "\<exists>v. interaction_kernel xj xi c_type = Inr v
     \<and> interaction_kernel xi xj c_type = Inr (- fst v, - snd v)"
proof -
  define D where "D = linalg_norm (vsub xj xi)"
  have n: "linalg_norm (vsub xi xj) = D"
    unfolding D_def by (rule norm_vsub_commute)
  show ?thesis
  proof (cases "D < 0.001")
    case True
    then show ?thesis
      unfolding interaction_kernel_def Let_def n D_def [symmetric]
      by (simp add: zeros2_def)
  next
    case False
    then have nz: "D \<noteq> 0"
      by auto
    show ?thesis
      unfolding interaction_kernel_def Let_def n D_def [symmetric]
      using False nz
      by (simp add: vdiv_def smul_def vsub_def zeros2_def diff_divide_distrib)
  qed
qed

theorem kernel_antisymmetric_witness:
  "interaction_kernel (0, 0) (1, 0) Guard = Inr (- 2, 0)
   \<and> interaction_kernel (1, 0) (0, 0) Guard = Inr (2, 0)"
  using kernel_antisymmetric [of "(1, 0)" "(0, 0)" Guard]
  by (simp add: interaction_kernel_def Let_def vdiv_def smul_def vsub_def linalg_norm_def
        Guard_def)

section \<open>The Mage force in float64\<close>

lemma round_half_even_error: "\<bar>of_int (round_half_even x) - x\<bar> \<le> 1 / 2"
  unfolding round_half_even_def Let_def by (auto simp: abs_if) linarith+

lemma round_half_even_unique:
  assumes "of_int m - 1 / 2 < x" and "x < of_int m + 1 / 2"
  shows "round_half_even x = m"
proof -
  have "\<bar>of_int (round_half_even x) - x\<bar> \<le> 1 / 2"
    by (rule round_half_even_error)
  then have "\<bar>(of_int (round_half_even x) :: real) - of_int m\<bar> < 1"
    using assms by linarith
  then have "\<bar>round_half_even x - m\<bar> < 1"
    by (metis of_int_1 of_int_abs of_int_diff of_int_less_iff)
  then show ?thesis
    by simp
qed

lemma round64_error: "\<bar>round64 x - x\<bar> \<le> \<bar>x\<bar> / 2 ^ 53 + 1 / 2 ^ 1075"
proof (cases "x = 0")
  case True
  then show ?thesis by (simp add: round64_def)
next
  case False
  define e where "e = max \<lfloor>log 2 \<bar>x\<bar>\<rfloor> (- 1022)"
  define ulp :: real where "ulp = 2 powr of_int (e - 52)"
  have ulp: "0 < ulp"
    by (simp add: ulp_def)
  have r: "round64 x = of_int (round_half_even (x / ulp)) * ulp"
    using False by (simp add: round64_def e_def ulp_def Let_def)
  have "(of_int (round_half_even (x / ulp)) - x / ulp) * ulp = round64 x - x"
    using ulp by (simp add: r left_diff_distrib)
  then have "\<bar>round64 x - x\<bar> = \<bar>of_int (round_half_even (x / ulp)) - x / ulp\<bar> * ulp"
    using ulp by (metis abs_mult abs_of_pos)
  also have "\<dots> \<le> (1 / 2) * ulp"
    using round_half_even_error [of "x / ulp"] ulp by (intro mult_right_mono) simp_all
  finally have half: "\<bar>round64 x - x\<bar> \<le> ulp / 2"
    by simp
  have split: "ulp / 2 = 2 powr of_int e / 2 ^ 53"
    by (simp add: ulp_def powr_diff field_simps)
  show ?thesis
  proof (cases "\<lfloor>log 2 \<bar>x\<bar>\<rfloor> \<le> - 1022")
    case True
    then have "e = - 1022"
      by (simp add: e_def)
    then have "ulp / 2 = 1 / 2 ^ 1075"
      by (simp add: split powr_neg_numeral power_add [symmetric] flip: power_add)
    then show ?thesis
      using half by (smt (verit) abs_ge_zero divide_nonneg_pos zero_less_numeral zero_less_power)
  next
    case False
    then have "e = \<lfloor>log 2 \<bar>x\<bar>\<rfloor>"
      by (simp add: e_def)
    then have "2 powr of_int e \<le> \<bar>x\<bar>"
      using floor_log_eq_powr_iff [of "\<bar>x\<bar>" 2 e] \<open>x \<noteq> 0\<close> by simp
    then have "ulp / 2 \<le> \<bar>x\<bar> / 2 ^ 53"
      by (simp add: split divide_right_mono)
    then show ?thesis
      using half by (smt (verit) divide_nonneg_pos zero_less_numeral zero_less_power)
  qed
qed

lemma round64_eval:
  assumes lo: "2 powr of_int k \<le> \<bar>x\<bar>" and hi: "\<bar>x\<bar> < 2 powr of_int (k + 1)"
    and k: "- 1022 \<le> k"
    and m1: "of_int m - 1 / 2 < x / 2 powr of_int (k - 52)"
    and m2: "x / 2 powr of_int (k - 52) < of_int m + 1 / 2"
  shows "round64 x = of_int m * 2 powr of_int (k - 52)"
proof -
  have "0 < \<bar>x\<bar>"
    using lo by (smt (verit) powr_gt_zero)
  then have nz: "x \<noteq> 0"
    by simp
  have "\<lfloor>log 2 \<bar>x\<bar>\<rfloor> = k"
    using floor_log_eq_powr_iff [of "\<bar>x\<bar>" 2 k] \<open>0 < \<bar>x\<bar>\<close> lo hi by simp
  then have e: "max \<lfloor>log 2 \<bar>x\<bar>\<rfloor> (- 1022) = k"
    using k by simp
  have "round_half_even (x / 2 powr of_int (k - 52)) = m"
    using m1 m2 by (rule round_half_even_unique)
  then show ?thesis
    using nz by (simp add: round64_def e Let_def)
qed

lemma round64_1: "round64 1 = 1"
  using round64_eval [of 0 1 "2 ^ 52"] by (simp add: powr_neg_numeral)

lemma round64_2: "round64 2 = 2"
  using round64_eval [of 1 2 "2 ^ 52"] by (simp add: powr_neg_numeral)

lemma round64_half: "round64 (- (1 / 2)) = - (1 / 2)"
  using round64_eval [of "- 1" "- (1 / 2)" "- (2 ^ 52)"] by (simp add: powr_neg_numeral)

lemma round64_sqrt2: "round64 (sqrt 2) = 6369051672525773 / 2 ^ 52"
proof -
  have lo: "(12738103345051545 / 2 ^ 53 :: real) < sqrt 2"
    by (rule real_less_rsqrt) (simp add: power2_eq_square)
  have hi: "sqrt 2 < (12738103345051547 / 2 ^ 53 :: real)"
    by (rule real_less_lsqrt) (simp_all add: power2_eq_square)
  have "round64 (sqrt 2) = of_int 6369051672525773 * 2 powr of_int (0 - 52)"
  proof (rule round64_eval)
    show "2 powr of_int 0 \<le> \<bar>sqrt 2\<bar>"
      using lo by simp
    show "\<bar>sqrt 2\<bar> < 2 powr of_int (0 + 1)"
      using hi by simp
    show "of_int 6369051672525773 - 1 / 2 < sqrt 2 / 2 powr of_int (0 - 52)"
      using lo by (simp add: powr_neg_numeral)
    show "sqrt 2 / 2 powr of_int (0 - 52) < of_int 6369051672525773 + 1 / 2"
      using hi by (simp add: powr_neg_numeral)
  qed simp
  then show ?thesis
    by (simp add: powr_neg_numeral)
qed

lemma f64_1e_3_value: "f64_1e_3 = 1152921504606847 / 2 ^ 60"
  unfolding f64_1e_3_def
  using round64_eval [of "- 10" "0.001" 4611686018427388]
  by (simp add: powr_neg_numeral)

lemma round64_quotient:
  "round64 (- (1 / 2) / (6369051672525773 / 2 ^ 52)) = - (1592262918131443 / 2 ^ 52)"
  using round64_eval [of "- 2" "- (1 / 2) / (6369051672525773 / 2 ^ 52)" "- 6369051672525772"]
  by (simp add: powr_neg_numeral)

lemma round64_square:
  "round64 (- (1592262918131443 / 2 ^ 52) * - (1592262918131443 / 2 ^ 52)) =
     4503599627370495 / 2 ^ 55"
  using round64_eval [of "- 4" "- (1592262918131443 / 2 ^ 52) * - (1592262918131443 / 2 ^ 52)"
      9007199254740990]
  by (simp add: powr_neg_numeral)

lemma round64_sum:
  "round64 (4503599627370495 / 2 ^ 55 + 4503599627370495 / 2 ^ 55) = 4503599627370495 / 2 ^ 54"
  using round64_eval [of "- 3" "4503599627370495 / 2 ^ 55 + 4503599627370495 / 2 ^ 55"
      9007199254740990]
  by (simp add: powr_neg_numeral)

lemma round64_root:
  "round64 (sqrt (4503599627370495 / 2 ^ 54)) = 9007199254740991 / 2 ^ 54"
proof -
  let ?q = "4503599627370495 / 2 ^ 54 :: real"
  have lo: "(18014398509481981 / 2 ^ 55 :: real) < sqrt ?q"
    by (rule real_less_rsqrt) (simp add: power2_eq_square)
  have hi: "sqrt ?q < (18014398509481983 / 2 ^ 55 :: real)"
    by (rule real_less_lsqrt) (simp_all add: power2_eq_square)
  have "round64 (sqrt ?q) = of_int 9007199254740991 * 2 powr of_int (- 2 - 52)"
  proof (rule round64_eval)
    show "2 powr of_int (- 2) \<le> \<bar>sqrt ?q\<bar>"
      using lo by (simp add: powr_neg_numeral)
    show "\<bar>sqrt ?q\<bar> < 2 powr of_int (- 2 + 1)"
      using hi by (simp add: powr_neg_numeral powr_minus field_simps)
    show "of_int 9007199254740991 - 1 / 2 < sqrt ?q / 2 powr of_int (- 2 - 52)"
      using lo by (simp add: powr_neg_numeral)
    show "sqrt ?q / 2 powr of_int (- 2 - 52) < of_int 9007199254740991 + 1 / 2"
      using hi by (simp add: powr_neg_numeral)
  qed simp
  then show ?thesis
    by (simp add: powr_neg_numeral)
qed

lemma float64_small: "\<bar>round64 x\<bar> < 2 \<Longrightarrow> float64 x = Inr (round64 x)"
  by (simp add: float64_def)

lemma displacement_f64_example: "displacement_f64 (1, 1) (0, 0) = Inr (1, 1)"
  by (simp add: displacement_f64_def f64_sub_def float64_small round64_1)

lemma linalg_norm_f64_unit: "linalg_norm_f64 (1, 1) = Inr (6369051672525773 / 2 ^ 52)"
proof -
  have s: "f64_mul 1 1 = Inr 1"
    by (simp add: f64_mul_def float64_small round64_1)
  have q: "f64_add 1 1 = Inr 2"
    by (simp add: f64_add_def float64_def round64_2)
  have d: "f64_sqrt 2 = Inr (6369051672525773 / 2 ^ 52)"
    by (simp add: f64_sqrt_def float64_def round64_sqrt2)
  show ?thesis
    by (simp only: linalg_norm_f64_def fst_conv snd_conv s q d sum.case)
qed

lemma mage_kernel_f64_example:
  "mage_kernel_f64 (1, 1) (0, 0) =
     Inr (- (1592262918131443 / 2 ^ 52), - (1592262918131443 / 2 ^ 52))"
proof -
  have t: "f64_mul (- 0.5) 1 = Inr (- (1 / 2))"
    by (simp add: f64_mul_def float64_small round64_half)
  have "float64 (- (1 / 2) / (6369051672525773 / 2 ^ 52)) =
      Inr (- (1592262918131443 / 2 ^ 52))"
    by (simp only: float64_def round64_quotient) simp
  then have v: "f64_div (- (1 / 2)) (6369051672525773 / 2 ^ 52) =
      Inr (- (1592262918131443 / 2 ^ 52))"
    by (simp add: f64_div_def)
  have far: "\<not> (6369051672525773 / 2 ^ 52 :: real) < f64_1e_3"
    by (simp add: f64_1e_3_value)
  show ?thesis
    by (simp only: mage_kernel_f64_def displacement_f64_example linalg_norm_f64_unit far t v
          sum.case fst_conv snd_conv if_False)
qed

lemma linalg_norm_f64_example:
  "linalg_norm_f64 (- (1592262918131443 / 2 ^ 52), - (1592262918131443 / 2 ^ 52)) =
     Inr (9007199254740991 / 2 ^ 54)"
proof -
  have s: "f64_mul (- (1592262918131443 / 2 ^ 52)) (- (1592262918131443 / 2 ^ 52)) =
      Inr (4503599627370495 / 2 ^ 55)"
    by (simp only: f64_mul_def float64_def round64_square) simp
  have q: "f64_add (4503599627370495 / 2 ^ 55) (4503599627370495 / 2 ^ 55) =
      Inr (4503599627370495 / 2 ^ 54)"
    by (simp only: f64_add_def float64_def round64_sum) simp
  have "float64 (sqrt (4503599627370495 / 2 ^ 54)) = Inr (9007199254740991 / 2 ^ 54)"
    by (simp only: float64_def round64_root) simp
  then have d: "f64_sqrt (4503599627370495 / 2 ^ 54) = Inr (9007199254740991 / 2 ^ 54)"
    by (simp add: f64_sqrt_def)
  show ?thesis
    by (simp only: linalg_norm_f64_def fst_conv snd_conv s q d sum.case)
qed

lemma exact_norm_example:
  "sqrt ((- (1592262918131443 / 2 ^ 52))\<^sup>2 + (- (1592262918131443 / 2 ^ 52))\<^sup>2) \<noteq> 0.5"
proof
  have quarter: "sqrt (1 / 4) = (0.5 :: real)"
    by (simp add: real_sqrt_divide)
  assume "sqrt ((- (1592262918131443 / 2 ^ 52))\<^sup>2 + (- (1592262918131443 / 2 ^ 52))\<^sup>2) = 0.5"
  then have "sqrt ((- (1592262918131443 / 2 ^ 52))\<^sup>2 + (- (1592262918131443 / 2 ^ 52))\<^sup>2)
      = sqrt (1 / 4)"
    by (simp only: quarter)
  then have "(- (1592262918131443 / 2 ^ 52 :: real))\<^sup>2 + (- (1592262918131443 / 2 ^ 52))\<^sup>2
      = 1 / 4"
    by (simp only: real_sqrt_eq_iff)
  then show False
    by (simp add: power2_eq_square)
qed


lemma abs_le_sqrt_sum:
  fixes a b :: real
  shows "\<bar>a\<bar> \<le> sqrt (a * a + b * b)"
proof -
  have "sqrt (a * a) \<le> sqrt (a * a + b * b)"
    by (rule real_sqrt_le_mono) simp
  then show ?thesis
    by simp
qed

lemma norm_pair_diff:
  fixes v0 v1 w0 w1 :: real
  shows "\<bar>sqrt (v0\<^sup>2 + v1\<^sup>2) - sqrt (w0\<^sup>2 + w1\<^sup>2)\<bar> \<le> \<bar>v0 - w0\<bar> + \<bar>v1 - w1\<bar>"
proof -
  have "\<bar>cmod (Complex v0 v1) - cmod (Complex w0 w1)\<bar> \<le> cmod (Complex v0 v1 - Complex w0 w1)"
    by (rule norm_triangle_ineq3)
  also have "\<dots> \<le> \<bar>Re (Complex v0 v1 - Complex w0 w1)\<bar> + \<bar>Im (Complex v0 v1 - Complex w0 w1)\<bar>"
    by (rule cmod_le)
  finally show ?thesis
    by (simp add: cmod_def)
qed

lemma rounding_within:
  fixes x y b :: real
  assumes "\<bar>y - x\<bar> \<le> \<bar>x\<bar> / 2 ^ 53 + 1 / 2 ^ 100" and "\<bar>x\<bar> \<le> b"
  shows "\<bar>y - x\<bar> \<le> b / 9007199254740992 + 1 / 1267650600228229401496703205376"
proof -
  have "\<bar>x\<bar> / 2 ^ 53 \<le> b / 2 ^ 53"
    using assms(2) by (rule divide_right_mono) simp
  then have "\<bar>y - x\<bar> \<le> b / 2 ^ 53 + 1 / 2 ^ 100"
    using assms(1) by linarith
  then show ?thesis
    by simp
qed

lemma mage_norm_bound:
  fixes r0 r1 s0 s1 q d t0 t1 v0 v1 :: real
  assumes s0: "\<bar>s0 - r0 * r0\<bar> \<le> \<bar>r0 * r0\<bar> / 2 ^ 53 + 1 / 2 ^ 100"
    and s1: "\<bar>s1 - r1 * r1\<bar> \<le> \<bar>r1 * r1\<bar> / 2 ^ 53 + 1 / 2 ^ 100"
    and q: "\<bar>q - (s0 + s1)\<bar> \<le> \<bar>s0 + s1\<bar> / 2 ^ 53 + 1 / 2 ^ 100"
    and q0: "0 \<le> q"
    and d: "\<bar>d - sqrt q\<bar> \<le> \<bar>sqrt q\<bar> / 2 ^ 53 + 1 / 2 ^ 100"
    and far: "1 / 1000 \<le> d"
    and t0: "\<bar>t0 - (- 0.5) * r0\<bar> \<le> \<bar>(- 0.5) * r0\<bar> / 2 ^ 53 + 1 / 2 ^ 100"
    and t1: "\<bar>t1 - (- 0.5) * r1\<bar> \<le> \<bar>(- 0.5) * r1\<bar> / 2 ^ 53 + 1 / 2 ^ 100"
    and v0: "\<bar>v0 - t0 / d\<bar> \<le> \<bar>t0 / d\<bar> / 2 ^ 53 + 1 / 2 ^ 100"
    and v1: "\<bar>v1 - t1 / d\<bar> \<le> \<bar>t1 / d\<bar> / 2 ^ 53 + 1 / 2 ^ 100"
  shows "\<bar>sqrt (v0\<^sup>2 + v1\<^sup>2) - 1 / 2\<bar> \<le> 1 / 2 ^ 50 \<and> \<bar>t0\<bar> \<le> d \<and> \<bar>t1\<bar> \<le> d"
proof -
  define A where "A = r0 * r0"
  define B where "B = r1 * r1"
  define P where "P = A + B"
  define R where "R = sqrt P"
  define sq where "sq = sqrt q"
  have A0: "0 \<le> A" and B0: "0 \<le> B"
    by (simp_all add: A_def B_def)
  have P0: "0 \<le> P"
    using A0 B0 by (simp add: P_def)
  have sq0: "0 \<le> sq"
    using q0 by (simp add: sq_def)
  have sq2: "sq * sq = q"
    using q0 by (simp add: sq_def)
  have R0: "0 \<le> R"
    using P0 by (simp add: R_def)
  have R2: "R * R = P"
    using P0 by (simp add: R_def)
  have dpos: "0 < d"
    using far by simp
  \<comment> \<open>the sum of the squares\<close>
  have eA: "\<bar>s0 - A\<bar> \<le> A / 9007199254740992 + 1 / 1267650600228229401496703205376"
    using s0 A0 unfolding A_def [symmetric] by (intro rounding_within) simp_all
  have eB: "\<bar>s1 - B\<bar> \<le> B / 9007199254740992 + 1 / 1267650600228229401496703205376"
    using s1 B0 unfolding B_def [symmetric] by (intro rounding_within) simp_all
  have S: "\<bar>s0 + s1 - P\<bar> \<le> P / 9007199254740992 + 2 / 1267650600228229401496703205376"
    using eA eB P_def by linarith
  define y where "y = P / 9007199254740992 + 2 / 1267650600228229401496703205376"
  define b where "b = P + y"
  have "\<bar>s0 + s1\<bar> \<le> b"
    using S P0 y_def b_def by linarith
  with q have "\<bar>q - (s0 + s1)\<bar> \<le> b / 9007199254740992 + 1 / 1267650600228229401496703205376"
    by (rule rounding_within)
  then have qP: "\<bar>q - P\<bar> \<le> 3 * P / 9007199254740992 + 4 / 1267650600228229401496703205376"
    using S P0 y_def b_def by linarith
  \<comment> \<open>the floor on the distance keeps the sum of squares away from zero\<close>
  have eD: "\<bar>d - sq\<bar> \<le> sq / 9007199254740992 + 1 / 1267650600228229401496703205376"
    using d sq0 unfolding sq_def [symmetric] by (intro rounding_within) simp_all
  have sq_lo: "1 / 1001 \<le> sq"
    using eD far by linarith
  have "(1 / 1001) * (1 / 1001) \<le> sq * sq"
    using sq_lo by (intro mult_mono) simp_all
  then have q_lo: "1 / 1002001 \<le> q"
    by (simp add: sq2)
  have P_lo: "1 / 2097152 \<le> P"
    using qP q_lo by linarith
  have qP': "\<bar>q - P\<bar> \<le> 4 * P / 9007199254740992"
    using qP P_lo by linarith
  have "(1 / 2048)\<^sup>2 \<le> P"
    using P_lo by (simp add: power2_eq_square)
  then have R_lo: "1 / 2048 \<le> R"
    unfolding R_def by (rule real_le_rsqrt)
  have Rpos: "0 < R"
    using R_lo by linarith
  \<comment> \<open>the square root\<close>
  have "(sq - R) * (sq + R) = q - P"
    using sq2 R2 by (simp add: algebra_simps)
  then have "\<bar>sq - R\<bar> * (sq + R) = \<bar>q - P\<bar>"
    using sq0 R0 by (metis abs_mult abs_of_nonneg add_nonneg_nonneg)
  moreover have "\<bar>sq - R\<bar> * R \<le> \<bar>sq - R\<bar> * (sq + R)"
    using sq0 by (intro mult_left_mono) simp_all
  ultimately have "\<bar>sq - R\<bar> * R \<le> 4 * P / 9007199254740992"
    using qP' by simp
  then have "\<bar>sq - R\<bar> * R \<le> (4 * R / 9007199254740992) * R"
    by (simp add: R2 [symmetric])
  then have sqR: "\<bar>sq - R\<bar> \<le> 4 * R / 9007199254740992"
    using Rpos by (rule mult_right_le_imp_le)
  have dR: "\<bar>d - R\<bar> \<le> 6 * R / 9007199254740992"
    using eD sqR R_lo by linarith
  have d_lo: "R - 6 * R / 9007199254740992 \<le> d"
    and d_hi: "d \<le> R + 6 * R / 9007199254740992"
    using dR by linarith+
  \<comment> \<open>the ratio of the exact and the computed distance\<close>
  define \<rho> where "\<rho> = R / d"
  have \<rho>0: "0 \<le> \<rho>"
    using R0 dpos by (simp add: \<rho>_def)
  have "R \<le> (9007199254740999 / 9007199254740992) * d"
    using d_lo dpos by linarith
  then have \<rho>_hi: "\<rho> \<le> 9007199254740999 / 9007199254740992"
    using dpos unfolding \<rho>_def by (simp only: pos_divide_le_eq)
  have "(9007199254740986 / 9007199254740992) * d \<le> R"
    using d_hi dpos by linarith
  then have \<rho>_lo: "9007199254740986 / 9007199254740992 \<le> \<rho>"
    using dpos unfolding \<rho>_def by (simp only: pos_le_divide_eq)
  have \<rho>: "\<bar>\<rho> - 1\<bar> \<le> 7 / 9007199254740992"
    using \<rho>_hi \<rho>_lo by linarith
  \<comment> \<open>the exact quotient of the computed displacement by the computed distance\<close>
  define w0 where "w0 = (- 0.5) * r0 / d"
  define w1 where "w1 = (- 0.5) * r1 / d"
  have "w0\<^sup>2 + w1\<^sup>2 = (\<rho> / 2)\<^sup>2"
    using dpos
    by (simp add: w0_def w1_def \<rho>_def power2_eq_square R2 P_def A_def B_def field_simps)
  then have W: "sqrt (w0\<^sup>2 + w1\<^sup>2) = \<rho> / 2"
    using \<rho>0 by simp
  have inv: "1 / d \<le> 1000"
    using far dpos by (simp add: field_simps)
  have comp: "\<bar>v - w\<bar> \<le> 3 / 18014398509481984 \<and> \<bar>t\<bar> \<le> d"
    if t: "\<bar>t - (- 0.5) * r\<bar> \<le> \<bar>(- 0.5) * r\<bar> / 2 ^ 53 + 1 / 2 ^ 100"
      and v: "\<bar>v - t / d\<bar> \<le> \<bar>t / d\<bar> / 2 ^ 53 + 1 / 2 ^ 100"
      and w: "w = (- 0.5) * r / d" and r: "\<bar>r\<bar> \<le> R" for r t v w :: real
  proof -
    define x where "x = (- 0.5) * r"
    define h where "h = \<bar>r\<bar> / 2"
    define a where "a = h / d"
    have xh: "\<bar>x\<bar> = h"
      by (simp add: x_def h_def abs_mult)
    have h0: "0 \<le> h"
      by (simp add: h_def)
    have hR: "h \<le> R / 2"
      using r by (simp add: h_def)
    have a0: "0 \<le> a"
      using h0 dpos by (simp add: a_def)
    have "h / d \<le> (R / 2) / d"
      using hR dpos by (intro divide_right_mono) simp_all
    then have "a \<le> \<rho> / 2"
      by (simp add: a_def \<rho>_def)
    then have a: "a \<le> 1 / 2 + 7 / 18014398509481984"
      using \<rho> by linarith
    have wa: "\<bar>w\<bar> = a"
      using dpos by (simp add: w a_def h_def abs_mult)
    have et: "\<bar>t - x\<bar> \<le> h / 9007199254740992 + 1 / 1267650600228229401496703205376"
      using t xh unfolding x_def [symmetric] by (intro rounding_within) simp_all
    \<comment> \<open>the scaled displacement is below the distance\<close>
    have "\<bar>t\<bar> \<le> \<bar>t - x\<bar> + \<bar>x\<bar>"
      by simp
    then have tsmall: "\<bar>t\<bar> \<le> d"
      using et xh hR d_lo R_lo by linarith
    \<comment> \<open>the quotient\<close>
    have "t / d - w = (t - x) / d"
      using dpos by (simp add: w x_def field_simps)
    then have "\<bar>t / d - w\<bar> = \<bar>t - x\<bar> * (1 / d)"
      using dpos by simp
    also have "\<dots> \<le> (h / 9007199254740992 + 1 / 1267650600228229401496703205376) * (1 / d)"
      using et dpos by (intro mult_right_mono) simp_all
    also have "\<dots> = a / 9007199254740992 + (1 / 1267650600228229401496703205376) * (1 / d)"
      by (simp add: a_def add_divide_distrib mult.commute)
    also have "\<dots> \<le> a / 9007199254740992 + (1 / 1267650600228229401496703205376) * 1000"
      using inv by (intro add_left_mono mult_left_mono) simp_all
    finally have tw: "\<bar>t / d - w\<bar> \<le> a / 9007199254740992 + 1000 / 1267650600228229401496703205376"
      by simp
    define y where "y = a / 9007199254740992 + 1000 / 1267650600228229401496703205376"
    define b where "b = a + y"
    have "\<bar>t / d\<bar> \<le> \<bar>t / d - w\<bar> + \<bar>w\<bar>"
      by simp
    then have "\<bar>t / d\<bar> \<le> b"
      using tw wa y_def b_def by linarith
    with v have "\<bar>v - t / d\<bar> \<le> b / 9007199254740992 + 1 / 1267650600228229401496703205376"
      by (rule rounding_within)
    moreover have "\<bar>v - w\<bar> \<le> \<bar>v - t / d\<bar> + \<bar>t / d - w\<bar>"
      by simp
    ultimately have "\<bar>v - w\<bar> \<le> 3 / 18014398509481984"
      using tw a a0 y_def b_def by linarith
    then show ?thesis
      using tsmall by simp
  qed
  have r0R: "\<bar>r0\<bar> \<le> R" and r1R: "\<bar>r1\<bar> \<le> R"
    unfolding R_def P_def A_def B_def
    using abs_le_sqrt_sum [of r0 r1] abs_le_sqrt_sum [of r1 r0] by (simp_all add: add.commute)
  have c0: "\<bar>v0 - w0\<bar> \<le> 3 / 18014398509481984 \<and> \<bar>t0\<bar> \<le> d"
    using t0 v0 w0_def r0R by (rule comp)
  have c1: "\<bar>v1 - w1\<bar> \<le> 3 / 18014398509481984 \<and> \<bar>t1\<bar> \<le> d"
    using t1 v1 w1_def r1R by (rule comp)
  have "\<bar>sqrt (v0\<^sup>2 + v1\<^sup>2) - sqrt (w0\<^sup>2 + w1\<^sup>2)\<bar> \<le> \<bar>v0 - w0\<bar> + \<bar>v1 - w1\<bar>"
    by (rule norm_pair_diff)
  then have "\<bar>sqrt (v0\<^sup>2 + v1\<^sup>2) - 1 / 2\<bar> \<le> 1 / 1125899906842624"
    using c0 c1 \<rho> unfolding W by linarith
  then have "\<bar>sqrt (v0\<^sup>2 + v1\<^sup>2) - 1 / 2\<bar> \<le> 1 / 2 ^ 50"
    by simp
  then show ?thesis
    using c0 c1 by simp
qed

lemma round64_error_coarse: "\<bar>round64 x - x\<bar> \<le> \<bar>x\<bar> / 2 ^ 53 + 1 / 2 ^ 100"
proof -
  have "(1 / 2 ^ 1075 :: real) \<le> 1 / 2 ^ 100"
    by (intro divide_left_mono power_increasing) simp_all
  then show ?thesis
    using round64_error [of x] by linarith
qed

lemma float64_Inr: "float64 x = Inr y \<Longrightarrow> y = round64 x \<and> \<bar>y\<bar> < 2 ^ 1024"
  by (auto simp: float64_def split: if_splits)

lemma float64_bounded: "\<bar>round64 x\<bar> < 2 ^ 1024 \<Longrightarrow> float64 x = Inr (round64 x)"
  by (simp add: float64_def)

lemma linalg_norm_f64_Inr:
  assumes "linalg_norm_f64 r = Inr d"
  shows "\<exists>s0 s1 q. s0 = round64 (fst r * fst r) \<and> s1 = round64 (snd r * snd r)
    \<and> q = round64 (s0 + s1) \<and> 0 \<le> q \<and> d = round64 (sqrt q) \<and> \<bar>d\<bar> < 2 ^ 1024"
  using assms
  by (auto simp: linalg_norm_f64_def f64_mul_def f64_add_def f64_sqrt_def
      dest!: float64_Inr split: sum.splits if_splits)

text \<open>
  C4, as the script behaves. The claim is that the force a Mage feels has Euclidean norm
  exactly 0.5 at every distance above \<open>0.001\<close>. For \<open>xi = (1, 1)\<close> and \<open>xj = (0, 0)\<close>
  the distance is the float nearest to \<open>sqrt 2\<close>, and the script returns the vector
  with both entries \<open>-1592262918131443 / 2\<^sup>5\<^sup>2\<close>. Its Euclidean norm is not 0.5, and
  \<^verbatim>\<open>np.linalg.norm\<close> of it is \<open>9007199254740991 / 2\<^sup>5\<^sup>4\<close>, the float just below 0.5.
\<close>

theorem mage_norm_counterexample:
  "mage_kernel_f64 (1, 1) (0, 0) =
     Inr (- (1592262918131443 / 2 ^ 52), - (1592262918131443 / 2 ^ 52))
   \<and> sqrt ((- (1592262918131443 / 2 ^ 52))\<^sup>2 + (- (1592262918131443 / 2 ^ 52))\<^sup>2) \<noteq> 0.5
   \<and> linalg_norm_f64 (- (1592262918131443 / 2 ^ 52), - (1592262918131443 / 2 ^ 52)) =
     Inr (9007199254740991 / 2 ^ 54)"
  using mage_kernel_f64_example exact_norm_example linalg_norm_f64_example by blast

text \<open>
  C4, amended. For a Mage, whenever the distance is computed without overflow and is not
  below \<^verbatim>\<open>1e-3\<close>, the kernel returns \<open>-0.5 \<cdot> r / dist\<close> evaluated in float64: each entry
  of \<open>r\<close> times \<open>-0.5\<close>, then divided by \<open>dist\<close>. The Euclidean norm of the returned
  vector is within \<open>2\<^sup>-\<^sup>5\<^sup>0\<close> of 0.5, whatever the distance.
\<close>

theorem mage_kernel_f64_norm:
  assumes disp: "displacement_f64 xi xj = Inr r"
    and nrm: "linalg_norm_f64 r = Inr d"
    and far: "f64_1e_3 \<le> d"
  shows "\<exists>t0 t1 v. f64_mul (- 0.5) (fst r) = Inr t0 \<and> f64_mul (- 0.5) (snd r) = Inr t1
     \<and> f64_div t0 d = Inr (fst v) \<and> f64_div t1 d = Inr (snd v)
     \<and> mage_kernel_f64 xi xj = Inr v
     \<and> \<bar>sqrt ((fst v)\<^sup>2 + (snd v)\<^sup>2) - 0.5\<bar> \<le> 1 / 2 ^ 50"
proof -
  obtain s0 s1 q where
    s0: "s0 = round64 (fst r * fst r)" and s1: "s1 = round64 (snd r * snd r)" and
    q: "q = round64 (s0 + s1)" and q0: "0 \<le> q" and d: "d = round64 (sqrt q)" and
    dmax: "\<bar>d\<bar> < 2 ^ 1024"
    using linalg_norm_f64_Inr [OF nrm] by blast
  define t0 where "t0 = round64 ((- 0.5) * fst r)"
  define t1 where "t1 = round64 ((- 0.5) * snd r)"
  define v0 where "v0 = round64 (t0 / d)"
  define v1 where "v1 = round64 (t1 / d)"
  have far': "1 / 1000 \<le> d"
    using far by (simp add: f64_1e_3_value)
  have e_s0: "\<bar>s0 - fst r * fst r\<bar> \<le> \<bar>fst r * fst r\<bar> / 2 ^ 53 + 1 / 2 ^ 100"
    unfolding s0 by (rule round64_error_coarse)
  have e_s1: "\<bar>s1 - snd r * snd r\<bar> \<le> \<bar>snd r * snd r\<bar> / 2 ^ 53 + 1 / 2 ^ 100"
    unfolding s1 by (rule round64_error_coarse)
  have e_q: "\<bar>q - (s0 + s1)\<bar> \<le> \<bar>s0 + s1\<bar> / 2 ^ 53 + 1 / 2 ^ 100"
    unfolding q by (rule round64_error_coarse)
  have e_d: "\<bar>d - sqrt q\<bar> \<le> \<bar>sqrt q\<bar> / 2 ^ 53 + 1 / 2 ^ 100"
    unfolding d by (rule round64_error_coarse)
  have e_t0: "\<bar>t0 - (- 0.5) * fst r\<bar> \<le> \<bar>(- 0.5) * fst r\<bar> / 2 ^ 53 + 1 / 2 ^ 100"
    unfolding t0_def by (rule round64_error_coarse)
  have e_t1: "\<bar>t1 - (- 0.5) * snd r\<bar> \<le> \<bar>(- 0.5) * snd r\<bar> / 2 ^ 53 + 1 / 2 ^ 100"
    unfolding t1_def by (rule round64_error_coarse)
  have e_v0: "\<bar>v0 - t0 / d\<bar> \<le> \<bar>t0 / d\<bar> / 2 ^ 53 + 1 / 2 ^ 100"
    unfolding v0_def by (rule round64_error_coarse)
  have e_v1: "\<bar>v1 - t1 / d\<bar> \<le> \<bar>t1 / d\<bar> / 2 ^ 53 + 1 / 2 ^ 100"
    unfolding v1_def by (rule round64_error_coarse)
  have bound: "\<bar>sqrt (v0\<^sup>2 + v1\<^sup>2) - 1 / 2\<bar> \<le> 1 / 2 ^ 50 \<and> \<bar>t0\<bar> \<le> d \<and> \<bar>t1\<bar> \<le> d"
    using e_s0 e_s1 e_q q0 e_d far' e_t0 e_t1 e_v0 e_v1 by (rule mage_norm_bound)
  have dnz: "d \<noteq> 0"
    using far' by auto
  have "d \<le> \<bar>d\<bar>"
    by simp
  then have dlt: "d < 2 ^ 1024"
    using dmax by (rule le_less_trans)
  have "\<bar>t0\<bar> \<le> d" "\<bar>t1\<bar> \<le> d"
    using bound by blast+
  then have tmax: "\<bar>t0\<bar> < 2 ^ 1024" "\<bar>t1\<bar> < 2 ^ 1024"
    using dlt by (blast intro: le_less_trans)+
  have t0: "f64_mul (- 0.5) (fst r) = Inr t0"
    unfolding f64_mul_def t0_def using tmax(1) unfolding t0_def by (rule float64_bounded)
  have t1: "f64_mul (- 0.5) (snd r) = Inr t1"
    unfolding f64_mul_def t1_def using tmax(2) unfolding t1_def by (rule float64_bounded)
  have "(1 / 2 ^ 50 :: real) \<le> 1 / 2"
    by simp
  then have nv: "sqrt (v0\<^sup>2 + v1\<^sup>2) \<le> 1"
    using bound by linarith
  have "\<bar>v0\<bar> \<le> sqrt (v0 * v0 + v1 * v1)"
    by (rule abs_le_sqrt_sum)
  then have a0: "\<bar>v0\<bar> \<le> sqrt (v0\<^sup>2 + v1\<^sup>2)"
    by (simp only: power2_eq_square)
  have "\<bar>v1\<bar> \<le> sqrt (v1 * v1 + v0 * v0)"
    by (rule abs_le_sqrt_sum)
  then have a1: "\<bar>v1\<bar> \<le> sqrt (v0\<^sup>2 + v1\<^sup>2)"
    by (simp only: power2_eq_square add.commute [of "v1 * v1"])
  have "\<bar>v0\<bar> \<le> 1" "\<bar>v1\<bar> \<le> 1"
    using a0 a1 nv by linarith+
  moreover have "(1::real) < 2 ^ 1024"
    by (rule one_less_power) simp_all
  ultimately have vmax: "\<bar>v0\<bar> < 2 ^ 1024" "\<bar>v1\<bar> < 2 ^ 1024"
    by (blast intro: le_less_trans)+
  have "float64 (t0 / d) = Inr v0"
    using vmax(1) unfolding v0_def by (rule float64_bounded)
  then have v0: "f64_div t0 d = Inr v0"
    using dnz by (simp add: f64_div_def)
  have "float64 (t1 / d) = Inr v1"
    using vmax(2) unfolding v1_def by (rule float64_bounded)
  then have v1: "f64_div t1 d = Inr v1"
    using dnz by (simp add: f64_div_def)
  have near: "\<not> d < f64_1e_3"
    using far by simp
  have "mage_kernel_f64 xi xj = Inr (v0, v1)"
    by (simp only: mage_kernel_f64_def disp nrm near t0 t1 v0 v1 sum.case if_False)
  then show ?thesis
    using t0 t1 v0 v1 bound by (intro exI [of _ t0] exI [of _ t1] exI [of _ "(v0, v1)"]) simp
qed

theorem mage_kernel_f64_norm_witness:
  "mage_kernel_f64 (1, 1) (0, 0) =
     Inr (- (1592262918131443 / 2 ^ 52), - (1592262918131443 / 2 ^ 52))
   \<and> \<bar>sqrt ((- (1592262918131443 / 2 ^ 52))\<^sup>2 + (- (1592262918131443 / 2 ^ 52))\<^sup>2) - 0.5\<bar>
       \<le> 1 / 2 ^ 50"
proof -
  have far: "f64_1e_3 \<le> 6369051672525773 / 2 ^ 52"
    by (simp add: f64_1e_3_value)
  obtain v where
    v: "mage_kernel_f64 (1, 1) (0, 0) = Inr v" and
    n: "\<bar>sqrt ((fst v)\<^sup>2 + (snd v)\<^sup>2) - 0.5\<bar> \<le> 1 / 2 ^ 50"
    using mage_kernel_f64_norm [OF displacement_f64_example linalg_norm_f64_unit far] by blast
  have "v = (- (1592262918131443 / 2 ^ 52), - (1592262918131443 / 2 ^ 52))"
    using v mage_kernel_f64_example by simp
  then show ?thesis
    using n mage_kernel_f64_example by simp
qed

section \<open>Properties of the potential\<close>

text \<open>
  C5. The gradient at a coordinate \<open>x\<close> is \<open>0.1 \<cdot> (x\<^sup>3 - 9x)\<close>, and the drift of an
  agent at \<open>(x, y)\<close> is the negated gradient of each coordinate on its own.
\<close>

theorem potential_drift:
  "potential_gradient x = 0.1 * (x ^ 3 - 9 * x)
   \<and> drift_of (x, y) = (- (0.1 * (x ^ 3 - 9 * x)), - (0.1 * (y ^ 3 - 9 * y)))"
  by (simp add: potential_gradient_def drift_of_def potential_gradient_row_def vneg_def)

section \<open>Properties of the mean field\<close>

lemma interaction_loop_sum:
  assumes "i < length X" and "i < length classes" and "\<forall>j\<in>set js. j < length X"
  shows "interaction_loop X classes i js acc =
    Inr (fst acc + (\<Sum>j\<leftarrow>filter (\<lambda>j. j \<noteq> i) js. fst (projr (interaction_kernel (X ! i) (X ! j) (classes ! i)))),
         snd acc + (\<Sum>j\<leftarrow>filter (\<lambda>j. j \<noteq> i) js. snd (projr (interaction_kernel (X ! i) (X ! j) (classes ! i)))))"
  using assms
proof (induction js arbitrary: acc)
  case Nil
  then show ?case by simp
next
  case (Cons j js)
  show ?case
  proof (cases "i = j")
    case True
    then show ?thesis using Cons by simp
  next
    case False
    obtain v where k: "interaction_kernel (X ! i) (X ! j) (classes ! i) = Inr v"
      using kernel_returns by blast
    have j: "j < length X" using Cons.prems by simp
    have "interaction_loop X classes i (j # js) acc =
        interaction_loop X classes i js
          (vadd acc (projr (interaction_kernel (X ! i) (X ! j) (classes ! i))))"
      using False Cons.prems(1,2) j k by (simp add: getitem_def)
    also have "\<dots> = Inr
        (fst (vadd acc (projr (interaction_kernel (X ! i) (X ! j) (classes ! i)))) +
           (\<Sum>j\<leftarrow>filter (\<lambda>j. j \<noteq> i) js. fst (projr (interaction_kernel (X ! i) (X ! j) (classes ! i)))),
         snd (vadd acc (projr (interaction_kernel (X ! i) (X ! j) (classes ! i)))) +
           (\<Sum>j\<leftarrow>filter (\<lambda>j. j \<noteq> i) js. snd (projr (interaction_kernel (X ! i) (X ! j) (classes ! i)))))"
      using Cons.prems by (intro Cons.IH) simp_all
    finally show ?thesis
      using False by (simp add: vadd_def add.assoc)
  qed
qed


lemma sum_list_others:
  fixes f :: "nat \<Rightarrow> real"
  shows "(\<Sum>j\<leftarrow>filter (\<lambda>j. j \<noteq> i) [0..<n]. f j) = (\<Sum>j\<in>{0..<n} - {i}. f j)"
proof -
  have "set (filter (\<lambda>j. j \<noteq> i) [0..<n]) = {0..<n} - {i}"
    by auto
  moreover have "distinct (filter (\<lambda>j. j \<noteq> i) [0..<n])"
    by simp
  ultimately show ?thesis
    by (metis sum_list_distinct_conv_sum_set)
qed

lemma mean_field_value:
  assumes X: "length X = nat N" and c: "length classes = nat N" and i: "i < nat N"
  shows "mean_field N X classes i =
    Inr ((\<Sum>j\<in>{0..<nat N} - {i}. fst (projr (interaction_kernel (X ! i) (X ! j) (classes ! i)))) / of_int N,
         (\<Sum>j\<in>{0..<nat N} - {i}. snd (projr (interaction_kernel (X ! i) (X ! j) (classes ! i)))) / of_int N)"
proof -
  have N: "of_int N \<noteq> (0::real)"
    using i by auto
  have "interaction_loop X classes i (py_range N) zeros2 =
    Inr ((\<Sum>j\<in>{0..<nat N} - {i}. fst (projr (interaction_kernel (X ! i) (X ! j) (classes ! i)))),
         (\<Sum>j\<in>{0..<nat N} - {i}. snd (projr (interaction_kernel (X ! i) (X ! j) (classes ! i)))))"
    using X c i
    by (simp add: interaction_loop_sum py_range_def zeros2_def sum_list_others)
  then show ?thesis
    using N by (simp add: mean_field_def vdiv_def)
qed

text \<open>
  C6. For an agent \<open>i\<close> of a snapshot of \<open>N\<close> agents, the interaction term is the sum of
  the kernel over every \<open>j \<noteq> i\<close>, the term \<open>j = i\<close> left out, divided by \<open>N\<close>. With
  \<open>N = 1\<close> it is the zero vector.
\<close>

theorem mean_field_formula:
  assumes "length X = nat N" and "length classes = nat N" and "i < nat N"
  shows "\<exists>k. (\<forall>j<nat N. j \<noteq> i \<longrightarrow>
               interaction_kernel (X ! i) (X ! j) (classes ! i) = Inr (k j))
     \<and> mean_field N X classes i =
         Inr ((\<Sum>j\<in>{0..<nat N} - {i}. fst (k j)) / of_int N,
              (\<Sum>j\<in>{0..<nat N} - {i}. snd (k j)) / of_int N)
     \<and> (N = 1 \<longrightarrow> mean_field N X classes i = Inr (0, 0))"
proof -
  define k where "k j = projr (interaction_kernel (X ! i) (X ! j) (classes ! i))" for j
  have each: "interaction_kernel (X ! i) (X ! j) (classes ! i) = Inr (k j)" for j
    using kernel_returns [of "X ! i" "X ! j" "classes ! i"] by (auto simp: k_def)
  have mf: "mean_field N X classes i =
         Inr ((\<Sum>j\<in>{0..<nat N} - {i}. fst (k j)) / of_int N,
              (\<Sum>j\<in>{0..<nat N} - {i}. snd (k j)) / of_int N)"
    unfolding k_def using assms by (rule mean_field_value)
  have one: "mean_field N X classes i = Inr (0, 0)" if "N = 1"
  proof -
    have e: "{0..<nat N} - {i} = {}"
      using that assms(3) by auto
    show ?thesis
      unfolding mf e using that by simp
  qed
  show ?thesis
    using each mf one by blast
qed

theorem mean_field_formula_witness:
  "mean_field 1 [(7, 7)] [Guard] 0 = Inr (0, 0)
   \<and> mean_field 2 [(1, 0), (0, 0)] [Guard, Ninja] 0 = Inr (1, 0)"
proof -
  have alone: "mean_field 1 [(7, 7)] [Guard] 0 = Inr (0, 0)"
    using mean_field_formula [of "[(7, 7)]" 1 "[Guard]" 0] by simp
  obtain k where
    k: "\<forall>j<nat 2. j \<noteq> 0 \<longrightarrow>
          interaction_kernel ([(1, 0), (0, 0)] ! 0) ([(1, 0), (0, 0)] ! j) ([Guard, Ninja] ! 0)
            = Inr (k j)" and
    mf: "mean_field 2 [(1, 0), (0, 0)] [Guard, Ninja] 0 =
          Inr ((\<Sum>j\<in>{0..<nat 2} - {0}. fst (k j)) / of_int 2,
               (\<Sum>j\<in>{0..<nat 2} - {0}. snd (k j)) / of_int 2)"
    using mean_field_formula [of "[(1, 0), (0, 0)]" 2 "[Guard, Ninja]" 0] by auto
  have "interaction_kernel (1, 0) (0, 0) Guard = Inr (k 1)"
    using k by simp
  then have k1: "k (Suc 0) = (2, 0)"
    by (simp add: interaction_kernel_def Let_def vdiv_def smul_def vsub_def linalg_norm_def
          Guard_def)
  have others: "{0..<nat 2} - {0::nat} = {1}"
    by auto
  show ?thesis
    using alone mf unfolding others by (simp add: k1)
qed

section \<open>Properties of one time step\<close>

lemma agents_loop_append:
  "agents_loop rnd N dt sigma X classes (is @ js) st =
     (case agents_loop rnd N dt sigma X classes is st of
        Inl e \<Rightarrow> Inl e
      | Inr st' \<Rightarrow> agents_loop rnd N dt sigma X classes js st')"
proof (induction "is" arbitrary: st)
  case Nil
  then show ?case by (cases st) simp
next
  case (Cons i "is")
  show ?case
    by (cases st) (simp add: Cons.IH split: sum.splits prod.splits)
qed

lemma agents_loop_upto:
  assumes upd: "\<And>i g. i < n \<Longrightarrow>
      agent_update rnd N dt sigma X classes i g =
        Inr (f i (fst (randn_2 rnd g)), snd (randn_2 rnd g))"
    and len: "n \<le> length X0"
  shows "\<exists>Y. agents_loop rnd N dt sigma X classes [0..<n] (X0, g) = Inr (Y, rng_after rnd n g)
    \<and> length Y = length X0
    \<and> (\<forall>i<n. Y ! i = f i (sample_at rnd g i))
    \<and> (\<forall>i. n \<le> i \<longrightarrow> i < length X0 \<longrightarrow> Y ! i = X0 ! i)"
  using assms
proof (induction n)
  case 0
  then show ?case by simp
next
  case (Suc n)
  have "n \<le> length X0"
    using Suc.prems(2) by simp
  then obtain Y where
    run: "agents_loop rnd N dt sigma X classes [0..<n] (X0, g) = Inr (Y, rng_after rnd n g)" and
    lenY: "length Y = length X0" and
    filled: "\<forall>i<n. Y ! i = f i (sample_at rnd g i)" and
    rest: "\<forall>i. n \<le> i \<longrightarrow> i < length X0 \<longrightarrow> Y ! i = X0 ! i"
    using Suc.IH Suc.prems(1) by (metis less_Suc_eq)
  let ?v = "f n (sample_at rnd g n)"
  have n: "n < length Y"
    using Suc.prems(2) lenY by simp
  have one: "agent_update rnd N dt sigma X classes n (rng_after rnd n g) =
      Inr (?v, rng_after rnd (Suc n) g)"
    using Suc.prems(1) [of n "rng_after rnd n g"] by (simp add: sample_at_def)
  have "agents_loop rnd N dt sigma X classes [0..<Suc n] (X0, g) =
      Inr (Y[n := ?v], rng_after rnd (Suc n) g)"
    using run one n by (simp add: agents_loop_append setitem_def)
  moreover have "length (Y[n := ?v]) = length X0"
    using lenY by simp
  moreover have "\<forall>i<Suc n. Y[n := ?v] ! i = f i (sample_at rnd g i)"
    using filled n by (auto simp: less_Suc_eq nth_list_update)
  moreover have "\<forall>i. Suc n \<le> i \<longrightarrow> i < length X0 \<longrightarrow> Y[n := ?v] ! i = X0 ! i"
    using rest by (auto simp: nth_list_update)
  ultimately show ?case
    by blast
qed


lemma agent_update_value:
  assumes X: "length X = nat N" and c: "length classes = nat N" and i: "i < nat N"
    and dt: "0 \<le> dt"
  shows "agent_update rnd N dt sigma X classes i g =
    Inr (vadd (vadd (X ! i)
            (smul dt (vadd (drift_of (X ! i)) (projr (mean_field N X classes i)))))
          (smul sigma (smul (sqrt dt) (fst (randn_2 rnd g)))),
         snd (randn_2 rnd g))"
proof -
  obtain m where m: "mean_field N X classes i = Inr m"
    using mean_field_value [OF X c i] by blast
  have xi: "getitem X i = Inr (X ! i)"
    using X i by (simp add: getitem_def)
  have noise: "noise_of dt sigma z = Inr (smul sigma (smul (sqrt dt) z))" for z
    using dt by (simp add: noise_of_def np_sqrt_def)
  show ?thesis
    by (simp add: agent_update_def xi m noise Let_def split: prod.splits)
qed

lemma py_range_2: "py_range 2 = [0, Suc 0]"
  by (simp add: py_range_def upt_rec)

lemma norm_axis: "linalg_norm (a, 0) = \<bar>a\<bar>"
  by (simp add: linalg_norm_def)

lemma step_rows:
  assumes X: "length X = nat N" and c: "length classes = nat N" and dt: "0 \<le> dt"
  shows "\<exists>X_new. step rnd N dt sigma classes (X, history, g) =
        Inr (X_new, history @ [X_new], rng_after rnd (nat N) g)
     \<and> length X_new = nat N
     \<and> (\<forall>i<nat N. X_new ! i =
          vadd (vadd (X ! i)
              (smul dt (vadd (drift_of (X ! i)) (projr (mean_field N X classes i)))))
            (smul sigma (smul (sqrt dt) (sample_at rnd g i))))"
proof -
  define f where "f i z =
      vadd (vadd (X ! i) (smul dt (vadd (drift_of (X ! i)) (projr (mean_field N X classes i)))))
        (smul sigma (smul (sqrt dt) z))" for i z
  have upd: "agent_update rnd N dt sigma X classes i g' =
      Inr (f i (fst (randn_2 rnd g')), snd (randn_2 rnd g'))" if "i < nat N" for i g'
    unfolding f_def using X c that dt by (rule agent_update_value)
  have "nat N \<le> length (replicate (length X) zeros2)"
    using X by simp
  from agents_loop_upto [of "nat N" rnd N dt sigma X classes f, OF upd this, of g]
  obtain Y where
    loop: "agents_loop rnd N dt sigma X classes [0..<nat N] (replicate (length X) zeros2, g) =
        Inr (Y, rng_after rnd (nat N) g)" and
    lenY: "length Y = nat N" and
    vals: "\<forall>i<nat N. Y ! i = f i (sample_at rnd g i)"
    using X by auto
  have st: "step rnd N dt sigma classes (X, history, g) =
      Inr (Y, history @ [Y], rng_after rnd (nat N) g)"
    using loop by (simp add: step_def py_range_def)
  have rows: "\<forall>i<nat N. Y ! i =
          vadd (vadd (X ! i)
              (smul dt (vadd (drift_of (X ! i)) (projr (mean_field N X classes i)))))
            (smul sigma (smul (sqrt dt) (sample_at rnd g i)))"
    using vals by (simp add: f_def)
  show ?thesis
    using st lenY rows by blast
qed

text \<open>
  C7. One time step from a snapshot \<open>X\<close> of \<open>N\<close> agents is a synchronous Euler-Maruyama
  update: the new position of every agent \<open>i\<close> is
  \<open>x\<^sub>i + (drift\<^sub>i + interaction\<^sub>i) \<cdot> dt + noise\<^sub>i\<close>, where the drift is the negated gradient
  at \<open>X[i]\<close>, the interaction is the mean field of \<open>i\<close> in \<open>X\<close>, and the noise is the
  \<open>i\<close>-th sample drawn in the step times \<open>sqrt dt\<close> times \<open>sigma\<close>. Everything on the
  right is read from the snapshot before the step; no new position enters it.
\<close>

theorem step_synchronous:
  assumes "length X = nat N" and "length classes = nat N" and "0 \<le> dt"
  shows "\<exists>X_new. step rnd N dt sigma classes (X, history, g) =
        Inr (X_new, history @ [X_new], rng_after rnd (nat N) g)
     \<and> length X_new = nat N
     \<and> (\<forall>i<nat N. \<exists>m. mean_field N X classes i = Inr m
          \<and> fst (X_new ! i) =
              fst (X ! i) + (- potential_gradient (fst (X ! i)) + fst m) * dt
                + fst (sample_at rnd g i) * sqrt dt * sigma
          \<and> snd (X_new ! i) =
              snd (X ! i) + (- potential_gradient (snd (X ! i)) + snd m) * dt
                + snd (sample_at rnd g i) * sqrt dt * sigma)"
proof -
  from step_rows [OF assms, of rnd sigma history g]
  obtain Y where Y:
    "step rnd N dt sigma classes (X, history, g) =
        Inr (Y, history @ [Y], rng_after rnd (nat N) g)
     \<and> length Y = nat N
     \<and> (\<forall>i<nat N. Y ! i =
          vadd (vadd (X ! i)
              (smul dt (vadd (drift_of (X ! i)) (projr (mean_field N X classes i)))))
            (smul sigma (smul (sqrt dt) (sample_at rnd g i))))" ..
  note st = Y [THEN conjunct1]
    and lenY = Y [THEN conjunct2, THEN conjunct1]
    and vals = Y [THEN conjunct2, THEN conjunct2]
  have each: "\<exists>m. mean_field N X classes i = Inr m
          \<and> fst (Y ! i) =
              fst (X ! i) + (- potential_gradient (fst (X ! i)) + fst m) * dt
                + fst (sample_at rnd g i) * sqrt dt * sigma
          \<and> snd (Y ! i) =
              snd (X ! i) + (- potential_gradient (snd (X ! i)) + snd m) * dt
                + snd (sample_at rnd g i) * sqrt dt * sigma" if i: "i < nat N" for i
  proof -
    obtain m where m: "mean_field N X classes i = Inr m"
      using mean_field_value [OF assms(1,2) i] by blast
    have "Y ! i =
          vadd (vadd (X ! i) (smul dt (vadd (drift_of (X ! i)) m)))
            (smul sigma (smul (sqrt dt) (sample_at rnd g i)))"
      using vals i m by simp
    then show ?thesis
      using m
      by (simp add: vadd_def smul_def drift_of_def vneg_def potential_gradient_row_def
            algebra_simps)
  qed
  show ?thesis
    using st lenY each by blast
qed

theorem step_synchronous_witness:
  "step counting_random 2 1 2 [Guard, Guard] ([(1, 0), (0, 0)], [], 0) =
     Inr ([(2.8, 2), (3, 6)], [[(2.8, 2), (3, 6)]], 4)"
  using step_synchronous [of "[(1, 0), (0, 0)]" 2 "[Guard, Guard]" 1 counting_random 2 "[]" 0]
  by (simp add: step_def py_range_2 agent_update_def mean_field_def getitem_def setitem_def
        interaction_kernel_def Let_def vdiv_def smul_def vsub_def vadd_def vneg_def zeros2_def
        norm_axis Guard_def drift_of_def potential_gradient_row_def potential_gradient_def
        noise_of_def np_sqrt_def randn_2_def counting_random_def)

section \<open>Properties of the run\<close>

lemma length_randn_rows: "length (fst (randn_rows rnd n g)) = n"
  by (induction n arbitrary: g) (simp_all add: Let_def case_prod_beta)

lemma length_randint_list: "length (fst (randint_list rnd n g)) = n"
  by (induction n arbitrary: g) (simp_all add: Let_def case_prod_beta)

lemma step_shape:
  assumes "length X = nat N" and "length classes = nat N" and "0 \<le> dt"
  shows "\<exists>X' g'. step rnd N dt sigma classes (X, h, g) = Inr (X', h @ [X'], g')
    \<and> length X' = nat N"
  using step_rows [OF assms, of rnd sigma h g] by auto

lemma step_appends:
  "step rnd N dt sigma classes (X, h, g) = Inr (X', h', g') \<Longrightarrow> h' = h @ [X']"
  by (auto simp: step_def split: sum.splits)

lemma simulation_loop_shape:
  assumes "length X = nat N" and "length classes = nat N" and "0 \<le> dt"
  shows "\<exists>X' hs g'. simulation_loop rnd N dt sigma classes n (X, h, g) = Inr (X', h @ hs, g')
    \<and> length X' = nat N \<and> length hs = n \<and> (\<forall>S\<in>set hs. length S = nat N)"
  using assms(1)
proof (induction n arbitrary: X h g)
  case 0
  then show ?case by simp
next
  case (Suc n)
  obtain X1 g1 where
    s1: "step rnd N dt sigma classes (X, h, g) = Inr (X1, h @ [X1], g1)" and
    l1: "length X1 = nat N"
    using step_shape [OF Suc.prems assms(2,3), of rnd sigma h g] by blast
  obtain X' hs g' where
    r: "simulation_loop rnd N dt sigma classes n (X1, h @ [X1], g1) =
          Inr (X', (h @ [X1]) @ hs, g')" and
    l: "length X' = nat N" "length hs = n" "\<forall>S\<in>set hs. length S = nat N"
    using Suc.IH [OF l1, of "h @ [X1]" g1] by blast
  have "simulation_loop rnd N dt sigma classes (Suc n) (X, h, g) = Inr (X', h @ (X1 # hs), g')"
    using s1 r by simp
  moreover have "length (X1 # hs) = Suc n" "\<forall>S\<in>set (X1 # hs). length S = nat N"
    using l l1 by simp_all
  ultimately show ?case
    using l(1) by blast
qed

lemma simulation_loop_add:
  "simulation_loop rnd N dt sigma classes (n + m) st =
     (case simulation_loop rnd N dt sigma classes n st of
        Inl e \<Rightarrow> Inl e
      | Inr st' \<Rightarrow> simulation_loop rnd N dt sigma classes m st')"
  by (induction n arbitrary: st) (simp_all split: sum.splits)

lemma simulation_loop_history:
  "simulation_loop rnd N dt sigma classes n (X, h, g) = Inr (X', h', g')
    \<Longrightarrow> \<exists>hs. h' = h @ hs \<and> length hs = n \<and> last (X # hs) = X'"
proof (induction n arbitrary: X h g)
  case 0
  then show ?case by simp
next
  case (Suc n)
  from Suc.prems obtain X1 h1 g1 where
    s1: "step rnd N dt sigma classes (X, h, g) = Inr (X1, h1, g1)" and
    r: "simulation_loop rnd N dt sigma classes n (X1, h1, g1) = Inr (X', h', g')"
    by (auto split: sum.splits)
  have h1: "h1 = h @ [X1]"
    using s1 by (rule step_appends)
  obtain hs where hs: "h' = h1 @ hs" "length hs = n" "last (X1 # hs) = X'"
    using Suc.IH [OF r] by blast
  have "h' = h @ (X1 # hs)" "length (X1 # hs) = Suc n" "last (X # X1 # hs) = X'"
    using hs h1 by simp_all
  then show ?case
    by blast
qed

lemma run_start:
  assumes "0 \<le> N"
  shows "\<exists>X classes g0. length X = nat N \<and> length classes = nat N
    \<and> (\<forall>T dt sigma. run rnd N T dt sigma g =
          simulation_loop rnd N dt sigma classes (nat T) (X, [], g0))"
proof -
  obtain Z g1 where Z: "randn_rows rnd (nat N) g = (Z, g1)"
    by (cases "randn_rows rnd (nat N) g")
  obtain classes g2 where c: "randint_list rnd (nat N) g1 = (classes, g2)"
    by (cases "randint_list rnd (nat N) g1")
  have "length Z = nat N"
    using length_randn_rows [of rnd "nat N" g] Z by simp
  moreover have "length classes = nat N"
    using length_randint_list [of rnd "nat N" g1] c by simp
  moreover have "run rnd N T dt sigma g =
      simulation_loop rnd N dt sigma classes (nat T) (map (smul 5) Z, [], g2)" for T dt sigma
    using assms Z c by (simp add: run_def randn_N_2_def randint_N_def)
  ultimately show ?thesis
    by (intro exI [of _ "map (smul 5) Z"] exI [of _ classes] exI [of _ g2]) simp
qed

lemma step_negative_dt:
  assumes X: "length X = nat N" and c: "length classes = nat N" and N: "0 < N"
    and dt: "dt < 0"
  shows "step rnd N dt sigma classes (X, h, g) = Inl NonFinite"
proof -
  have i: "0 < nat N"
    using N by simp
  obtain m where m: "mean_field N X classes 0 = Inr m"
    using mean_field_value [OF X c i] by blast
  have "agent_update rnd N dt sigma X classes 0 g' = Inl NonFinite" for g'
    using X i dt
    by (simp add: agent_update_def getitem_def m noise_of_def np_sqrt_def Let_def
          split: prod.splits)
  moreover have "py_range N = 0 # [Suc 0..<nat N]"
    using i by (simp add: py_range_def upt_conv_Cons)
  ultimately show ?thesis
    by (simp add: step_def)
qed

lemma simulation_loop_no_agents:
  "\<exists>X' hs. simulation_loop rnd 0 dt sigma classes n (X, h, g) = Inr (X', h @ hs, g)
     \<and> length hs = n"
proof (induction n arbitrary: X h)
  case 0
  then show ?case by simp
next
  case (Suc n)
  let ?Z = "replicate (length X) zeros2"
  have s: "step rnd 0 dt sigma classes (X, h, g) = Inr (?Z, h @ [?Z], g)"
    by (simp add: step_def py_range_def)
  obtain X' hs where
    r: "simulation_loop rnd 0 dt sigma classes n (?Z, h @ [?Z], g) = Inr (X', (h @ [?Z]) @ hs, g)"
    and l: "length hs = n"
    using Suc.IH [of ?Z "h @ [?Z]"] by blast
  have "simulation_loop rnd 0 dt sigma classes (Suc n) (X, h, g) = Inr (X', h @ (?Z # hs), g)"
    using s r by simp
  moreover have "length (?Z # hs) = Suc n"
    using l by simp
  ultimately show ?case
    by blast
qed

lemmas run_eval =
  run_def randn_N_2_def randint_N_def step_def py_range_def agent_update_def mean_field_def
  getitem_def setitem_def interaction_kernel_def Let_def vdiv_def smul_def vsub_def vadd_def
  vneg_def zeros2_def norm_axis drift_of_def potential_gradient_row_def potential_gradient_def
  noise_of_def np_sqrt_def randn_2_def counting_random_def eval_nat_numeral upt_rec

text \<open>
  C8. A run with \<open>N \<ge> 0\<close>, \<open>T \<ge> 0\<close> and \<open>dt \<ge> 0\<close> completes, and its history has
  exactly \<open>T\<close> snapshots of exactly \<open>N\<close> positions each (a position is a pair of reals
  by its type). The snapshots are in step order: for every \<open>t < T\<close>, the run of \<open>t + 1\<close>
  steps from the same generator ends in the population \<open>history[t]\<close>, and its history
  is the first \<open>t + 1\<close> snapshots of the longer run.
\<close>

theorem trajectory_shape:
  assumes "0 \<le> N" and "0 \<le> T" and "0 \<le> dt"
  shows "\<exists>X history g'. run rnd N T dt sigma g = Inr (X, history, g')
     \<and> int (length history) = T
     \<and> (\<forall>S\<in>set history. int (length S) = N)
     \<and> (\<forall>t<nat T. \<exists>X_t g_t.
           run rnd N (int (Suc t)) dt sigma g = Inr (X_t, take (Suc t) history, g_t)
           \<and> history ! t = X_t)"
proof -
  obtain X0 classes g0 where
    X0: "length X0 = nat N" and cl: "length classes = nat N" and
    start: "\<And>T dt sigma. run rnd N T dt sigma g =
          simulation_loop rnd N dt sigma classes (nat T) (X0, [], g0)"
    using run_start [OF assms(1), of rnd g] by blast
  obtain X history g' where
    whole: "simulation_loop rnd N dt sigma classes (nat T) (X0, [], g0) = Inr (X, history, g')"
    and len: "length history = nat T" and rows: "\<forall>S\<in>set history. length S = nat N"
    using simulation_loop_shape [OF X0 cl assms(3), of rnd sigma "nat T" "[]" g0] by auto
  have prefix: "\<exists>X_t g_t.
           run rnd N (int (Suc t)) dt sigma g = Inr (X_t, take (Suc t) history, g_t)
           \<and> history ! t = X_t" if t: "t < nat T" for t
  proof -
    obtain X_t h_t g_t where
      part: "simulation_loop rnd N dt sigma classes (Suc t) (X0, [], g0) = Inr (X_t, h_t, g_t)"
      and lt: "length h_t = Suc t"
      using simulation_loop_shape [OF X0 cl assms(3), of rnd sigma "Suc t" "[]" g0] by auto
    obtain hs where hs: "h_t = [] @ hs" "last (X0 # hs) = X_t"
      using simulation_loop_history [OF part] by blast
    have ne: "h_t \<noteq> []"
      using lt by auto
    then have "last h_t = X_t"
      using hs by simp
    then have last: "h_t ! t = X_t"
      using last_conv_nth [OF ne] lt by simp
    have "nat T = Suc t + (nat T - Suc t)"
      using t by simp
    then have "simulation_loop rnd N dt sigma classes (nat T) (X0, [], g0) =
        simulation_loop rnd N dt sigma classes (nat T - Suc t) (X_t, h_t, g_t)"
      using simulation_loop_add [of rnd N dt sigma classes "Suc t" "nat T - Suc t" "(X0, [], g0)"]
        part by simp
    then have "simulation_loop rnd N dt sigma classes (nat T - Suc t) (X_t, h_t, g_t) =
        Inr (X, history, g')"
      using whole by simp
    then have "\<exists>hs. history = h_t @ hs \<and> length hs = nat T - Suc t \<and> last (X_t # hs) = X"
      by (rule simulation_loop_history)
    then obtain rest where rest: "history = h_t @ rest"
      by blast
    have "take (Suc t) history = h_t" "history ! t = X_t"
      using rest lt last by (simp_all add: nth_append)
    moreover have "run rnd N (int (Suc t)) dt sigma g = Inr (X_t, h_t, g_t)"
      unfolding start [of "int (Suc t)" dt sigma] nat_int by (rule part)
    ultimately show ?thesis
      by simp
  qed
  have "run rnd N T dt sigma g = Inr (X, history, g')"
    using start [of T dt sigma] whole by simp
  moreover have "int (length history) = T"
    using len assms(2) by simp
  moreover have "\<forall>S\<in>set history. int (length S) = N"
    using rows assms(1) by simp
  ultimately show ?thesis
    using prefix by blast
qed

theorem trajectory_shape_witness:
  "run counting_random 1 2 1 1 0 = Inr ([(8, 7.8)], [[(3, 1)], [(8, 7.8)]], 7)
   \<and> run counting_random 1 1 1 1 0 = Inr ([(3, 1)], [[(3, 1)]], 5)"
  using trajectory_shape [of 1 2 1 counting_random 1 0]
  by (simp add: run_eval)

text \<open>
  C1, as the script behaves. The claim is that a run with \<open>N \<le> 0\<close>, \<open>T < 0\<close>,
  \<open>dt \<le> 0\<close> or \<open>sigma < 0\<close> stops with a configuration error before any step. The
  script checks none of the four. With \<open>N = 0\<close>, with \<open>T < 0\<close>, with \<open>dt = 0\<close> and with
  \<open>sigma < 0\<close> the run returns normally, and in the last two cases a step is made and
  its snapshot recorded.
\<close>

theorem run_configuration_error_counterexample:
  "run counting_random 0 2 1 1 0 = Inr ([], [[], []], 0)
   \<and> run counting_random 1 (- 1) 1 1 0 = Inr ([(0, 5)], [], 3)
   \<and> run counting_random 1 1 0 1 0 = Inr ([(0, 5)], [[(0, 5)]], 5)
   \<and> run counting_random 1 1 1 (- 1) 0 = Inr ([(- 3, - 7)], [[(- 3, - 7)]], 5)"
  by (simp add: run_eval)

text \<open>
  C1, amended. The run stops before any step only when \<open>N < 0\<close>: numpy refuses the
  negative dimension of the initial positions. With \<open>N \<ge> 0\<close> and \<open>dt \<ge> 0\<close>, whatever
  \<open>T\<close> and \<open>sigma\<close> are, nothing is raised and the history has \<open>max T 0\<close> snapshots;
  the same holds with \<open>dt < 0\<close> when there is no agent or no step to make. With
  \<open>dt < 0\<close>, an agent and a step to make, the square root of line 48 is not a number,
  which is no exception either.
\<close>

theorem run_without_validation:
  "(N < 0 \<longrightarrow> run rnd N T dt sigma g = Inl ValueError)
   \<and> (0 \<le> N \<and> (0 \<le> dt \<or> N = 0 \<or> T \<le> 0) \<longrightarrow>
        (\<exists>X history g'. run rnd N T dt sigma g = Inr (X, history, g')
           \<and> length history = nat T))
   \<and> (0 < N \<and> 0 < T \<and> dt < 0 \<longrightarrow> run rnd N T dt sigma g = Inl NonFinite)"
proof (intro conjI impI)
  assume "N < 0"
  then show "run rnd N T dt sigma g = Inl ValueError"
    by (simp add: run_def randn_N_2_def)
next
  assume a: "0 \<le> N \<and> (0 \<le> dt \<or> N = 0 \<or> T \<le> 0)"
  obtain X0 classes g0 where
    X0: "length X0 = nat N" and cl: "length classes = nat N" and
    start: "\<And>T dt sigma. run rnd N T dt sigma g =
          simulation_loop rnd N dt sigma classes (nat T) (X0, [], g0)"
    using run_start [of N rnd g] a by blast
  consider (dt) "0 \<le> dt" | (none) "N = 0" | (still) "T \<le> 0"
    using a by blast
  then show "\<exists>X history g'. run rnd N T dt sigma g = Inr (X, history, g')
           \<and> length history = nat T"
  proof cases
    case dt
    then show ?thesis
      unfolding start
      using simulation_loop_shape [OF X0 cl dt, of rnd sigma "nat T" "[]" g0] by auto
  next
    case none
    then show ?thesis
      unfolding start
      using simulation_loop_no_agents [of rnd dt sigma classes "nat T" X0 "[]" g0] by auto
  next
    case still
    then show ?thesis
      unfolding start by simp
  qed
next
  assume a: "0 < N \<and> 0 < T \<and> dt < 0"
  obtain X0 classes g0 where
    X0: "length X0 = nat N" and cl: "length classes = nat N" and
    start: "\<And>T dt sigma. run rnd N T dt sigma g =
          simulation_loop rnd N dt sigma classes (nat T) (X0, [], g0)"
    using run_start [of N rnd g] a by force
  obtain n where n: "nat T = Suc n"
    using a by (cases "nat T") simp_all
  have "0 < N" "dt < 0"
    using a by simp_all
  then have "step rnd N dt sigma classes (X0, [], g0) = Inl NonFinite"
    by (rule step_negative_dt [OF X0 cl])
  then show "run rnd N T dt sigma g = Inl NonFinite"
    unfolding start n by simp
qed

theorem run_without_validation_witness:
  "run counting_random (- 1) 3 1 1 0 = Inl ValueError
   \<and> run counting_random 1 2 1 1 0 = Inr ([(8, 7.8)], [[(3, 1)], [(8, 7.8)]], 7)
   \<and> run counting_random 0 2 (- 1) 1 0 = Inr ([], [[], []], 0)
   \<and> run counting_random 1 1 (- 1) 1 0 = Inl NonFinite"
  using run_without_validation [of "- 1" counting_random 3 1 1 0]
    run_without_validation [of 1 counting_random 2 1 1 0]
    run_without_validation [of 0 counting_random 2 "- 1" 1 0]
    run_without_validation [of 1 counting_random 1 "- 1" 1 0]
  by (simp add: run_eval)

end
